theory Spec2Isabelle
  imports Main "HOL-Library.Word"
begin

section \<open>The main process: browser tab management (electron/src/index.ts)\<close>

text \<open>
  Modelling conventions.
  \<^item> A JavaScript number that holds a tab id, a pixel coordinate or a pixel amount is an
    unbounded integer (\<open>nat\<close> for ids, which start at 1 and only grow; \<open>int\<close> for pixels).
    JavaScript counts exactly up to \<open>2 ^ 53\<close>; a process that opens that many tabs is outside
    the model, and so are fractional amounts and \<open>NaN\<close>.
  \<^item> A JavaScript string is a \<open>string\<close>; one list element stands for one character, so the
    model covers text without surrogate pairs, where the string iterator, \<open>length\<close> and
    \<open>substring\<close> all count the same units.
  \<^item> The \<open>Map<number, Tab>\<close> is an association list in insertion order.
  \<^item> Electron objects are records of what the program does to them: a view records its
    bounds, its visibility and the calls made on its web contents; the window records its
    content size, the child views attached to it and the messages sent to the renderer.
  \<^item> \<open>captureActiveTab\<close> and the screenshot timer only read the module state and are left
    out.
\<close>

subsection \<open>Data\<close>

record rectangle =
  rect_x :: int
  rect_y :: int
  rect_width :: int
  rect_height :: int

datatype input_event =
    MouseDown int int
  | MouseUp int int
  | KeyDown string
  | CharEvent string
  | KeyUp string

text \<open>The two scripts the program evaluates in a page: \<open>window.scrollBy(x, y)\<close> and
  \<open>document.body.innerText.substring(from, to)\<close>.\<close>

datatype script =
    ScrollBy int int
  | InnerTextSubstring nat nat

datatype wc_call =
    LoadURL string
  | SendInputEvent input_event
  | ExecuteJavaScript script
  | GoBack
  | GoForward

record web_view =
  view_bounds :: "rectangle option"
  view_visible :: bool
  view_calls :: "wc_call list"

record tab =
  tab_id :: nat
  tab_view :: web_view
  tab_url :: string
  tab_title :: string

datatype renderer_msg =
    TabCreated nat string string
  | TabUpdated nat string string
  | TabSwitched nat
  | TabClosed nat

text \<open>A child view of the window is named by the id of the tab it was created for.\<close>

record browser_window =
  content_size :: "int \<times> int"
  children :: "nat list"
  sent :: "renderer_msg list"

text \<open>The module-level variables. \<open>disposed\<close> lists the tabs whose web contents were closed.\<close>

record state =
  mainWindow :: "browser_window option"
  tabs :: "(nat \<times> tab) list"
  activeTabId :: "nat option"
  nextTabId :: nat
  disposed :: "nat list"

definition init :: state where
  "init = \<lparr>mainWindow = None, tabs = [], activeTabId = None, nextTabId = 1, disposed = []\<rparr>"

subsection \<open>The insertion-ordered map\<close>

definition map_get :: "(nat \<times> 'v) list \<Rightarrow> nat \<Rightarrow> 'v option" where
  "map_get m k = map_of m k"

fun map_set :: "nat \<Rightarrow> 'v \<Rightarrow> (nat \<times> 'v) list \<Rightarrow> (nat \<times> 'v) list" where
  "map_set k v [] = [(k, v)]"
| "map_set k v ((k', v') # m) = (if k' = k then (k, v) # m else (k', v') # map_set k v m)"

definition map_delete :: "nat \<Rightarrow> (nat \<times> 'v) list \<Rightarrow> (nat \<times> 'v) list" where
  "map_delete k m = filter (\<lambda>p. fst p \<noteq> k) m"

definition map_keys :: "(nat \<times> 'v) list \<Rightarrow> nat list" where
  "map_keys m = map fst m"

definition map_values :: "(nat \<times> 'v) list \<Rightarrow> 'v list" where
  "map_values m = map snd m"

subsection \<open>Tab operations\<close>

definition getContentBounds :: "browser_window option \<Rightarrow> rectangle" where
  "getContentBounds mw =
     (case mw of
        None \<Rightarrow> \<lparr>rect_x = 0, rect_y = 0, rect_width = 800, rect_height = 600\<rparr>
      | Some w \<Rightarrow>
          (case content_size w of
             (width, height) \<Rightarrow>
               \<lparr>rect_x = 0, rect_y = 80, rect_width = width, rect_height = height - 80\<rparr>))"

definition send :: "renderer_msg \<Rightarrow> state \<Rightarrow> state" where
  "send m s =
     (case mainWindow s of
        None \<Rightarrow> s
      | Some w \<Rightarrow> s\<lparr>mainWindow := Some (w\<lparr>sent := sent w @ [m]\<rparr>)\<rparr>)"

text \<open>The loop of \<open>switchToTab\<close> over the entries of the map: the target's view is attached
  to the window if it is not yet a child, resized and shown; every other view is hidden.\<close>

fun switch_loop ::
  "nat \<Rightarrow> (nat \<times> tab) list \<Rightarrow> browser_window \<Rightarrow> (nat \<times> tab) list \<times> browser_window" where
  "switch_loop i [] w = ([], w)"
| "switch_loop i ((tid, t) # rest) w =
     (if tid = i then
        (let w1 = (if tab_id t \<in> set (children w) then w
                   else w\<lparr>children := children w @ [tab_id t]\<rparr>);
             v1 = (tab_view t)\<lparr>view_bounds := Some (getContentBounds (Some w1))\<rparr>;
             v2 = v1\<lparr>view_visible := True\<rparr>
         in (case switch_loop i rest w1 of
               (rest', w') \<Rightarrow> ((tid, t\<lparr>tab_view := v2\<rparr>) # rest', w')))
      else
        (case switch_loop i rest w of
           (rest', w') \<Rightarrow>
             ((tid, t\<lparr>tab_view := (tab_view t)\<lparr>view_visible := False\<rparr>\<rparr>) # rest', w')))"

definition switchToTab :: "nat \<Rightarrow> state \<Rightarrow> state" where
  "switchToTab i s =
     (case mainWindow s of
        None \<Rightarrow> s
      | Some w \<Rightarrow>
          (case map_get (tabs s) i of
             None \<Rightarrow> s
           | Some tab \<Rightarrow>
               (case switch_loop i (tabs s) w of
                  (ts, w1) \<Rightarrow>
                    send (TabSwitched i)
                      (s\<lparr>mainWindow := Some w1, tabs := ts, activeTabId := Some i\<rparr>))))"

definition fullUrl :: "string \<Rightarrow> string" where
  "fullUrl url = (if take 4 url = ''http'' then url else ''https://'' @ url)"

definition wc_calls :: "nat \<Rightarrow> wc_call list \<Rightarrow> state \<Rightarrow> state" where
  "wc_calls i cs s =
     (case map_get (tabs s) i of
        None \<Rightarrow> s
      | Some t \<Rightarrow>
          s\<lparr>tabs := map_set i
                (t\<lparr>tab_view := (tab_view t)\<lparr>view_calls := view_calls (tab_view t) @ cs\<rparr>\<rparr>)
                (tabs s)\<rparr>)"

definition new_view :: web_view where
  "new_view = \<lparr>view_bounds = None, view_visible = True, view_calls = []\<rparr>"

text \<open>\<open>createTab\<close> returns the tab it made; its callers read only the id and the url of it.\<close>

definition createTab :: "string \<Rightarrow> state \<Rightarrow> tab \<times> state" where
  "createTab url s =
     (let i = nextTabId s;
          s1 = s\<lparr>nextTabId := nextTabId s + 1\<rparr>;
          tab = \<lparr>tab_id = i, tab_view = new_view, tab_url = url, tab_title = ''New Tab''\<rparr>;
          s2 = s1\<lparr>tabs := map_set i tab (tabs s1)\<rparr>;
          s3 = (if url \<noteq> [] then wc_calls i [LoadURL (fullUrl url)] s2 else s2);
          s4 = switchToTab i s3
      in (tab, send (TabCreated i url ''New Tab'') s4))"

definition closeTab :: "nat \<Rightarrow> state \<Rightarrow> state" where
  "closeTab i s =
     (case map_get (tabs s) i of
        None \<Rightarrow> s
      | Some tab \<Rightarrow>
          (case mainWindow s of
             None \<Rightarrow> s
           | Some w \<Rightarrow>
               (let s1 = s\<lparr>mainWindow :=
                            Some (w\<lparr>children := removeAll (tab_id tab) (children w)\<rparr>)\<rparr>;
                    s2 = s1\<lparr>disposed := disposed s1 @ [tab_id tab]\<rparr>;
                    s3 = s2\<lparr>tabs := map_delete i (tabs s2)\<rparr>;
                    s4 = (if activeTabId s3 = Some i then
                            (let remaining = map_keys (tabs s3) in
                               if length remaining > 0
                               then switchToTab (remaining ! (length remaining - 1)) s3
                               else s3\<lparr>activeTabId := None\<rparr>)
                          else s3)
                in send (TabClosed i) s4)))"

text \<open>The two listeners \<open>createTab\<close> registers on the view of tab \<open>i\<close>.\<close>

definition did_navigate :: "nat \<Rightarrow> string \<Rightarrow> state \<Rightarrow> state" where
  "did_navigate i navUrl s =
     (case map_get (tabs s) i of
        None \<Rightarrow> s
      | Some tab \<Rightarrow>
          send (TabUpdated i navUrl (tab_title tab))
            (s\<lparr>tabs := map_set i (tab\<lparr>tab_url := navUrl\<rparr>) (tabs s)\<rparr>))"

definition page_title_updated :: "nat \<Rightarrow> string \<Rightarrow> state \<Rightarrow> state" where
  "page_title_updated i title s =
     (case map_get (tabs s) i of
        None \<Rightarrow> s
      | Some tab \<Rightarrow>
          send (TabUpdated i (tab_url tab) title)
            (s\<lparr>tabs := map_set i (tab\<lparr>tab_title := title\<rparr>) (tabs s)\<rparr>))"

subsection \<open>The IPC handlers\<close>

text \<open>The object a handler returns: \<open>{success, text?, error?}\<close>.\<close>

record result =
  res_success :: bool
  res_text :: "string option"
  res_error :: "string option"

definition ok :: result where
  "ok = \<lparr>res_success = True, res_text = None, res_error = None\<rparr>"

definition failure :: "string \<Rightarrow> result" where
  "failure msg = \<lparr>res_success = False, res_text = None, res_error = Some msg\<rparr>"

record created =
  created_id :: nat
  created_url :: string

definition handle_create_tab :: "string \<Rightarrow> state \<Rightarrow> created \<times> state" where
  "handle_create_tab url s =
     (case createTab url s of
        (tab, s') \<Rightarrow> (\<lparr>created_id = tab_id tab, created_url = tab_url tab\<rparr>, s'))"

definition handle_switch_tab :: "nat \<Rightarrow> state \<Rightarrow> result \<times> state" where
  "handle_switch_tab i s = (ok, switchToTab i s)"

definition handle_close_tab :: "nat \<Rightarrow> state \<Rightarrow> result \<times> state" where
  "handle_close_tab i s = (ok, closeTab i s)"

definition handle_navigate :: "string \<Rightarrow> state \<Rightarrow> result \<times> state" where
  "handle_navigate url s =
     (case activeTabId s of
        None \<Rightarrow> (ok, snd (createTab url s))
      | Some a \<Rightarrow>
          (case map_get (tabs s) a of
             None \<Rightarrow> (ok, s)
           | Some tab \<Rightarrow> (ok, wc_calls a [LoadURL (fullUrl url)] s)))"

record tab_info =
  info_id :: nat
  info_url :: string
  info_title :: string
  info_active :: bool

definition handle_get_tabs :: "state \<Rightarrow> tab_info list" where
  "handle_get_tabs s =
     map (\<lambda>t. \<lparr>info_id = tab_id t, info_url = tab_url t, info_title = tab_title t,
               info_active = (Some (tab_id t) = activeTabId s)\<rparr>)
       (map_values (tabs s))"

subsection \<open>The action executor (handler of \<open>execute-action\<close>)\<close>

record action =
  act_type :: string
  act_x :: "int option"
  act_y :: "int option"
  act_text :: "string option"
  act_direction :: "string option"
  act_amount :: "int option"

text \<open>What the page of the active tab answers while one action runs.\<close>

record page =
  innerText :: string
  canGoBack :: bool
  canGoForward :: bool

text \<open>\<open>action.amount || 500\<close>: an absent amount and the amount 0 are both falsy.\<close>

definition amount_or_500 :: "int option \<Rightarrow> int" where
  "amount_or_500 amount = (case amount of None \<Rightarrow> 500 | Some n \<Rightarrow> if n = 0 then 500 else n)"

text \<open>The loop over the characters of \<open>action.text\<close>; \<open>sentq\<close> is the list of events sent
  so far.\<close>

fun type_loop :: "string \<Rightarrow> wc_call list \<Rightarrow> wc_call list" where
  "type_loop [] sentq = sentq"
| "type_loop (c # cs) sentq =
     type_loop cs
       (sentq @ [SendInputEvent (KeyDown [c]), SendInputEvent (CharEvent [c]),
                 SendInputEvent (KeyUp [c])])"

text \<open>\<open>String.prototype.substring\<close> with \<open>0 \<le> from \<le> to\<close>.\<close>

definition substring :: "string \<Rightarrow> nat \<Rightarrow> nat \<Rightarrow> string" where
  "substring str from to = take (to - from) (drop from str)"

definition run_script :: "page \<Rightarrow> script \<Rightarrow> string option" where
  "run_script pg sc =
     (case sc of
        ScrollBy dx dy \<Rightarrow> None
      | InnerTextSubstring from to \<Rightarrow> Some (substring (innerText pg) from to))"

definition handle_execute_action :: "page \<Rightarrow> action \<Rightarrow> state \<Rightarrow> result \<times> state" where
  "handle_execute_action pg a s =
     (case activeTabId s of
        None \<Rightarrow> (failure ''No active tab'', s)
      | Some i \<Rightarrow>
          (case map_get (tabs s) i of
             None \<Rightarrow> (failure ''Tab not found'', s)
           | Some tab \<Rightarrow>
               if act_type a = ''click'' then
                 (case (act_x a, act_y a) of
                    (Some x, Some y) \<Rightarrow>
                      (ok, wc_calls i [SendInputEvent (MouseDown x y),
                                       SendInputEvent (MouseUp x y)] s)
                  | _ \<Rightarrow> (ok, s))
               else if act_type a = ''type'' then
                 (case act_text a of
                    None \<Rightarrow> (ok, s)
                  | Some txt \<Rightarrow>
                      if txt \<noteq> [] then (ok, wc_calls i (type_loop txt []) s) else (ok, s))
               else if act_type a = ''scroll'' then
                 (ok, wc_calls i
                        [ExecuteJavaScript
                           (ScrollBy 0 (if act_direction a = Some ''up''
                                        then - amount_or_500 (act_amount a)
                                        else amount_or_500 (act_amount a)))] s)
               else if act_type a = ''enter'' then
                 (ok, wc_calls i [SendInputEvent (KeyDown ''Return''),
                                  SendInputEvent (KeyUp ''Return'')] s)
               else if act_type a = ''back'' then
                 (ok, if canGoBack pg then wc_calls i [GoBack] s else s)
               else if act_type a = ''forward'' then
                 (ok, if canGoForward pg then wc_calls i [GoForward] s else s)
               else if act_type a = ''extract-text'' then
                 (\<lparr>res_success = True,
                   res_text = run_script pg (InnerTextSubstring 0 5000),
                   res_error = None\<rparr>,
                  wc_calls i [ExecuteJavaScript (InnerTextSubstring 0 5000)] s)
               else (failure (''Unknown action: '' @ act_type a), s)))"

subsection \<open>The window\<close>

text \<open>\<open>createWindow\<close>, with the content size of the new window; it opens a blank tab.\<close>

definition createWindow :: "int \<times> int \<Rightarrow> state \<Rightarrow> state" where
  "createWindow sz s =
     snd (createTab []
            (s\<lparr>mainWindow := Some \<lparr>content_size = sz, children = [], sent = []\<rparr>\<rparr>))"

text \<open>The window is resized to a new content size, then the \<open>resize\<close> listener runs.\<close>

definition on_resize :: "int \<times> int \<Rightarrow> state \<Rightarrow> state" where
  "on_resize sz s =
     (case mainWindow s of
        None \<Rightarrow> s
      | Some w \<Rightarrow>
          (let s1 = s\<lparr>mainWindow := Some (w\<lparr>content_size := sz\<rparr>)\<rparr> in
             (case activeTabId s1 of
                None \<Rightarrow> s1
              | Some a \<Rightarrow>
                  (case map_get (tabs s1) a of
                     None \<Rightarrow> s1
                   | Some tab \<Rightarrow>
                       s1\<lparr>tabs := map_set a
                             (tab\<lparr>tab_view := (tab_view tab)
                                     \<lparr>view_bounds := Some (getContentBounds (mainWindow s1))\<rparr>\<rparr>)
                             (tabs s1)\<rparr>))))"

definition on_closed :: "state \<Rightarrow> state" where
  "on_closed s = s\<lparr>mainWindow := None\<rparr>"

subsection \<open>Runs of the manager\<close>

text \<open>Everything that can happen to the module state: a request of the renderer, a
  notification of a page, or a window event.\<close>

datatype event =
    CreateTab string
  | SwitchTab nat
  | CloseTab nat
  | Navigate string
  | ExecuteAction page action
  | DidNavigate nat string
  | PageTitleUpdated nat string
  | CreateWindow "int \<times> int"
  | Resize "int \<times> int"
  | WindowClosed

fun step :: "event \<Rightarrow> state \<Rightarrow> state" where
  "step (CreateTab url) s = snd (handle_create_tab url s)"
| "step (SwitchTab i) s = snd (handle_switch_tab i s)"
| "step (CloseTab i) s = snd (handle_close_tab i s)"
| "step (Navigate url) s = snd (handle_navigate url s)"
| "step (ExecuteAction pg a) s = snd (handle_execute_action pg a s)"
| "step (DidNavigate i url) s = did_navigate i url s"
| "step (PageTitleUpdated i title) s = page_title_updated i title s"
| "step (CreateWindow sz) s = createWindow sz s"
| "step (Resize sz) s = on_resize sz s"
| "step WindowClosed s = on_closed s"

fun run :: "event list \<Rightarrow> state \<Rightarrow> state" where
  "run [] s = s"
| "run (e # es) s = run es (step e s)"

text \<open>The calls made so far on the web contents of tab \<open>i\<close>.\<close>

definition calls_of :: "state \<Rightarrow> nat \<Rightarrow> wc_call list" where
  "calls_of s i = (case map_get (tabs s) i of None \<Rightarrow> [] | Some t \<Rightarrow> view_calls (tab_view t))"

text \<open>The events of typing one character, in the order they are sent.\<close>

definition key_triple :: "char \<Rightarrow> wc_call list" where
  "key_triple c =
     [SendInputEvent (KeyDown [c]), SendInputEvent (CharEvent [c]), SendInputEvent (KeyUp [c])]"

subsection \<open>Invariants of the tab registry\<close>

text \<open>Every entry of the map is stored under the id of its tab.\<close>

definition ids_ok :: "(nat \<times> tab) list \<Rightarrow> bool" where
  "ids_ok m = list_all (\<lambda>p. tab_id (snd p) = fst p) m"

text \<open>The keys are in strictly increasing order and below the next id to assign, and the
  active tab, if there is one, is in the map.\<close>

definition registry_ok :: "state \<Rightarrow> bool" where
  "registry_ok s \<longleftrightarrow>
     sorted_wrt (<) (map_keys (tabs s)) \<and>
     list_all (\<lambda>k. k < nextTabId s) (map_keys (tabs s)) \<and>
     ids_ok (tabs s) \<and>
     set_option (activeTabId s) \<subseteq> set (map_keys (tabs s))"

section \<open>The renderer: framing of outbound binary messages (electron/src/App.tsx)\<close>

text \<open>A byte is an \<open>8 word\<close>. What a send function does: nothing when the socket is not
  open, an exception, or one binary message handed to the socket.\<close>

datatype ws_effect =
    NoSend
  | Throws
  | WsSend "8 word list"

text \<open>\<open>Uint8Array.prototype.set(source, offset)\<close>: a RangeError (\<open>None\<close>) when the source
  does not fit.\<close>

definition uint8_set :: "8 word list \<Rightarrow> 8 word list \<Rightarrow> nat \<Rightarrow> 8 word list option" where
  "uint8_set target source offset =
     (if offset + length source > length target then None
      else Some (take offset target @ source @ drop (offset + length source) target))"

definition sendAudio :: "bool \<Rightarrow> 8 word list \<Rightarrow> ws_effect" where
  "sendAudio ws_open pcmData =
     (if ws_open then
        (let header = [0x01];
             combined = replicate (length header + length pcmData) 0
         in (case uint8_set combined header 0 of
               None \<Rightarrow> Throws
             | Some c1 \<Rightarrow>
                 (case uint8_set c1 pcmData (length header) of
                    None \<Rightarrow> Throws
                  | Some c2 \<Rightarrow> WsSend c2)))
      else NoSend)"

text \<open>The loop of \<open>sendScreenshot\<close>: \<open>bytes\<close> are the character codes of the binary string,
  and a store into the \<open>Uint8Array\<close> keeps the code modulo 256.\<close>

function screenshot_loop :: "nat list \<Rightarrow> nat \<Rightarrow> 8 word list \<Rightarrow> 8 word list" where
  "screenshot_loop bytes i view =
     (if i < length bytes
      then screenshot_loop bytes (i + 1) (view[i + 1 := of_nat (bytes ! i)])
      else view)"
  by pat_completeness auto
termination
  by (relation "measure (\<lambda>(bytes, i, view). length bytes - i)") auto

declare screenshot_loop.simps [simp del]

text \<open>\<open>atob\<close> is the browser's base64 decoder, a parameter here: it gives the character
  codes of the decoded binary string, or throws (\<open>None\<close>).\<close>

definition sendScreenshot :: "(string \<Rightarrow> nat list option) \<Rightarrow> bool \<Rightarrow> string \<Rightarrow> ws_effect" where
  "sendScreenshot atob ws_open base64 =
     (if ws_open then
        (case atob base64 of
           None \<Rightarrow> Throws
         | Some bytes \<Rightarrow>
             (let buffer = replicate (length bytes + 1) 0;
                  view = buffer[0 := 0x02]
              in WsSend (screenshot_loop bytes 0 view)))
      else NoSend)"

text \<open>Modelled from the spec: the receiving side of the transport, which is not among the
  sources. The spec gives the wire format: a binary frame is one discriminator byte
  followed by the payload bytes, \<open>0x01\<close> for audio and \<open>0x02\<close> for imagery, one frame per
  message. Decoding splits a message into its discriminator and its payload.\<close>

definition decode_frame :: "8 word list \<Rightarrow> (8 word \<times> 8 word list) option" where
  "decode_frame msg =
     (case msg of
        [] \<Rightarrow> None
      | d # payload \<Rightarrow> if d = 0x01 \<or> d = 0x02 then Some (d, payload) else None)"

section \<open>Properties of the tab registry\<close>

subsection \<open>The map and the operations, one by one\<close>

lemma keys_map_set:
  "map_keys (map_set k v m) = (if k \<in> set (map_keys m) then map_keys m else map_keys m @ [k])"
  by (induction m) (force simp: map_keys_def)+

lemma keys_map_delete: "map_keys (map_delete k m) = filter (\<lambda>x. x \<noteq> k) (map_keys m)"
  by (induction m) (auto simp: map_keys_def map_delete_def)

lemma map_get_None: "map_get m k = None \<longleftrightarrow> k \<notin> set (map_keys m)"
  by (simp add: map_get_def map_keys_def map_of_eq_None_iff)

lemma map_get_Some_in: "map_get m k = Some v \<Longrightarrow> (k, v) \<in> set m"
  by (simp add: map_get_def map_of_SomeD)

lemma ids_ok_map_set: "ids_ok m \<Longrightarrow> tab_id v = k \<Longrightarrow> ids_ok (map_set k v m)"
  by (induction m) (auto simp: ids_ok_def)

lemma ids_ok_map_delete: "ids_ok m \<Longrightarrow> ids_ok (map_delete k m)"
  by (induction m) (auto simp: ids_ok_def map_delete_def)

lemma switch_loop_keys':
  "switch_loop i es w = (es', w') \<Longrightarrow> map_keys es' = map_keys es"
  by (induction es arbitrary: w es' w')
     (auto simp: map_keys_def Let_def split: prod.splits if_splits)

lemma switch_loop_keys: "map_keys (fst (switch_loop i es w)) = map_keys es"
  by (metis switch_loop_keys' prod.collapse)

lemma switch_loop_ids':
  "switch_loop i es w = (es', w') \<Longrightarrow> ids_ok es \<Longrightarrow> ids_ok es'"
  by (induction es arbitrary: w es' w')
     (auto simp: ids_ok_def Let_def split: prod.splits if_splits)

lemma switch_loop_ids: "ids_ok es \<Longrightarrow> ids_ok (fst (switch_loop i es w))"
  by (metis switch_loop_ids' prod.collapse)

lemma send_simps [simp]:
  "tabs (send m s) = tabs s" "activeTabId (send m s) = activeTabId s"
  "nextTabId (send m s) = nextTabId s" "(mainWindow (send m s) = None) = (mainWindow s = None)"
  by (auto simp: send_def split: option.splits)

lemma switchToTab_keys [simp]: "map_keys (tabs (switchToTab i s)) = map_keys (tabs s)"
  using switch_loop_keys[of i "tabs s"]
  by (auto simp: switchToTab_def split: option.splits prod.splits) (metis fst_conv)

lemma switchToTab_ids: "ids_ok (tabs s) \<Longrightarrow> ids_ok (tabs (switchToTab i s))"
  using switch_loop_ids[of "tabs s" i]
  by (auto simp: switchToTab_def split: option.splits prod.splits) (metis fst_conv)

lemma switchToTab_next [simp]: "nextTabId (switchToTab i s) = nextTabId s"
  by (auto simp: switchToTab_def split: option.splits prod.splits)

lemma switchToTab_window [simp]: "(mainWindow (switchToTab i s) = None) = (mainWindow s = None)"
  by (auto simp: switchToTab_def send_def split: option.splits prod.splits)

lemma switchToTab_active:
  "activeTabId (switchToTab i s) =
     (if mainWindow s \<noteq> None \<and> i \<in> set (map_keys (tabs s)) then Some i else activeTabId s)"
proof (cases "map_get (tabs s) i")
  case None
  then have "i \<notin> set (map_keys (tabs s))" by (simp add: map_get_None)
  with None show ?thesis by (simp add: switchToTab_def split: option.splits)
next
  case (Some t)
  then have "i \<in> set (map_keys (tabs s))"
    using map_get_None[of "tabs s" i] by simp
  with Some show ?thesis by (simp add: switchToTab_def split: option.splits prod.splits)
qed


lemma map_get_Some_key: "map_get m k = Some v \<Longrightarrow> k \<in> set (map_keys m)"
  using map_get_None[of m k] by simp

lemma ids_ok_lookup: "ids_ok m \<Longrightarrow> map_get m k = Some t \<Longrightarrow> tab_id t = k"
  using map_get_Some_in[of m k t] by (force simp: ids_ok_def list_all_iff)

lemma wc_calls_keys [simp]: "map_keys (tabs (wc_calls i cs s)) = map_keys (tabs s)"
proof (cases "map_get (tabs s) i")
  case None
  then show ?thesis by (simp add: wc_calls_def)
next
  case (Some t)
  then show ?thesis
    by (simp add: wc_calls_def keys_map_set map_get_Some_key)
qed

lemma wc_calls_simps [simp]:
  "activeTabId (wc_calls i cs s) = activeTabId s"
  "nextTabId (wc_calls i cs s) = nextTabId s"
  "mainWindow (wc_calls i cs s) = mainWindow s"
  by (simp_all add: wc_calls_def split: option.splits)

lemma wc_calls_ids: "ids_ok (tabs s) \<Longrightarrow> ids_ok (tabs (wc_calls i cs s))"
proof (cases "map_get (tabs s) i")
  case None
  assume "ids_ok (tabs s)"
  with None show ?thesis by (simp add: wc_calls_def)
next
  case (Some t)
  assume ok: "ids_ok (tabs s)"
  then have "tab_id t = i" using Some by (rule ids_ok_lookup)
  with ok Some show ?thesis
    by (simp add: wc_calls_def ids_ok_map_set)
qed


lemma send_ids [simp]: "ids_ok (tabs (send m s))"  if "ids_ok (tabs s)"
  using that by simp

lemma registry_ok_init: "registry_ok init"
  by (simp add: registry_ok_def init_def map_keys_def ids_ok_def)

lemma sorted_keys_append:
  "sorted_wrt (<) ks \<Longrightarrow> list_all (\<lambda>k. k < n) ks \<Longrightarrow> sorted_wrt (<) (ks @ [n::nat])"
  by (auto simp: sorted_wrt_append list_all_iff)

lemma fresh_key: "list_all (\<lambda>k. k < n) ks \<Longrightarrow> (n::nat) \<notin> set ks"
  by (auto simp: list_all_iff)

lemma createTab_next [simp]: "nextTabId (snd (createTab url s)) = nextTabId s + 1"
  by (simp add: createTab_def Let_def)

lemma createTab_id [simp]: "tab_id (fst (createTab url s)) = nextTabId s"
  by (simp add: createTab_def Let_def)

lemma createTab_keys:
  "map_keys (tabs (snd (createTab url s))) = map_keys (map_set (nextTabId s) v (tabs s))"
  by (simp add: createTab_def Let_def keys_map_set)

lemma createTab_ids: "ids_ok (tabs s) \<Longrightarrow> ids_ok (tabs (snd (createTab url s)))"
  by (simp add: createTab_def Let_def switchToTab_ids wc_calls_ids ids_ok_map_set)

lemma createTab_active:
  "activeTabId (snd (createTab url s)) =
     (if mainWindow s \<noteq> None then Some (nextTabId s) else activeTabId s)"
  by (auto simp: createTab_def Let_def switchToTab_active keys_map_set)

lemma createTab_window [simp]:
  "(mainWindow (snd (createTab url s)) = None) = (mainWindow s = None)"
  by (simp add: createTab_def Let_def)

lemma registry_ok_createTab:
  assumes "registry_ok s"
  shows "registry_ok (snd (createTab url s))"
proof -
  let ?n = "nextTabId s" and ?ks = "map_keys (tabs s)"
  from assms have fresh: "?n \<notin> set ?ks" and srt: "sorted_wrt (<) (?ks @ [?n])"
    by (simp_all add: registry_ok_def fresh_key sorted_keys_append)
  have keys: "map_keys (tabs (snd (createTab url s))) = ?ks @ [?n]"
    using fresh by (simp add: createTab_keys[where v=undefined] keys_map_set)
  have below: "list_all (\<lambda>k. k < ?n + 1) (?ks @ [?n])"
    using assms by (auto simp: registry_ok_def list_all_iff)
  have act: "set_option (activeTabId (snd (createTab url s))) \<subseteq> set (?ks @ [?n])"
    using assms by (auto simp: createTab_active registry_ok_def)
  show ?thesis
    unfolding registry_ok_def keys createTab_next
    using srt below act assms by (simp add: createTab_ids registry_ok_def)
qed


lemma closeTab_unknown: "i \<notin> set (map_keys (tabs s)) \<Longrightarrow> closeTab i s = s"
  using map_get_None[of "tabs s" i] by (simp add: closeTab_def)

lemma closeTab_no_window: "mainWindow s = None \<Longrightarrow> closeTab i s = s"
  by (simp add: closeTab_def split: option.splits)

lemma closeTab_next [simp]: "nextTabId (closeTab i s) = nextTabId s"
  by (simp add: closeTab_def Let_def split: option.splits)

lemma closeTab_window [simp]: "(mainWindow (closeTab i s) = None) = (mainWindow s = None)"
  by (auto simp: closeTab_def Let_def send_def switchToTab_def split: option.splits prod.splits)

lemma closeTab_keys:
  "mainWindow s \<noteq> None \<Longrightarrow>
   map_keys (tabs (closeTab i s)) = filter (\<lambda>k. k \<noteq> i) (map_keys (tabs s))"
proof (cases "map_get (tabs s) i")
  case None
  assume "mainWindow s \<noteq> None"
  from None have "i \<notin> set (map_keys (tabs s))" by (simp add: map_get_None)
  then have "filter (\<lambda>k. k \<noteq> i) (map_keys (tabs s)) = map_keys (tabs s)"
    by (auto intro: filter_True)
  with None show ?thesis by (simp add: closeTab_def)
next
  case (Some t)
  assume "mainWindow s \<noteq> None"
  with Some show ?thesis
    by (auto simp: closeTab_def Let_def keys_map_delete)
qed

lemma closeTab_ids: "ids_ok (tabs s) \<Longrightarrow> ids_ok (tabs (closeTab i s))"
  by (auto simp: closeTab_def Let_def ids_ok_map_delete switchToTab_ids split: option.splits)

lemma closeTab_active:
  assumes "mainWindow s \<noteq> None" and "i \<in> set (map_keys (tabs s))"
  shows "activeTabId (closeTab i s) =
           (if activeTabId s = Some i
            then (if filter (\<lambda>k. k \<noteq> i) (map_keys (tabs s)) = [] then None
                  else Some (last (filter (\<lambda>k. k \<noteq> i) (map_keys (tabs s)))))
            else activeTabId s)"
proof -
  obtain t where t: "map_get (tabs s) i = Some t"
    using assms(2) map_get_None[of "tabs s" i] by auto
  obtain w where w: "mainWindow s = Some w" using assms(1) by auto
  let ?r = "filter (\<lambda>k. k \<noteq> i) (map_keys (tabs s))"
  have nth: "?r \<noteq> [] \<Longrightarrow> ?r ! (length ?r - 1) = last ?r"
    by (simp add: last_conv_nth)
  have "?r \<noteq> [] \<Longrightarrow> last ?r \<in> set ?r"
    by (rule last_in_set)
  then have mem: "?r \<noteq> [] \<Longrightarrow> last ?r \<in> set (map_keys (tabs s)) \<and> last ?r \<noteq> i"
    by simp
  show ?thesis
    using nth mem
    by (auto simp: closeTab_def Let_def t w keys_map_delete switchToTab_active)
qed


lemma registry_ok_same_keys:
  assumes "registry_ok s"
    and "map_keys (tabs s') = map_keys (tabs s)" and "nextTabId s' = nextTabId s"
    and "ids_ok (tabs s')" and "activeTabId s' = activeTabId s"
  shows "registry_ok s'"
  using assms by (simp add: registry_ok_def)

lemma replace_keys:
  "map_get m i = Some t \<Longrightarrow> map_keys (map_set i t' m) = map_keys m"
  by (simp add: keys_map_set map_get_Some_key)

lemma replace_ids:
  "ids_ok m \<Longrightarrow> map_get m i = Some t \<Longrightarrow> tab_id t' = tab_id t \<Longrightarrow> ids_ok (map_set i t' m)"
  using ids_ok_lookup[of m i t] by (simp add: ids_ok_map_set)

lemma registry_ok_send [simp]: "registry_ok (send m s) = registry_ok s"
  by (simp add: registry_ok_def)

lemma registry_ok_wc_calls: "registry_ok s \<Longrightarrow> registry_ok (wc_calls i cs s)"
  by (rule registry_ok_same_keys) (simp_all add: wc_calls_ids registry_ok_def)

lemma registry_ok_switchToTab: "registry_ok s \<Longrightarrow> registry_ok (switchToTab i s)"
  by (auto simp: registry_ok_def switchToTab_ids switchToTab_active)

lemma registry_ok_closeTab:
  assumes "registry_ok s"
  shows "registry_ok (closeTab i s)"
proof (cases "mainWindow s \<noteq> None \<and> i \<in> set (map_keys (tabs s))")
  case False
  then have "closeTab i s = s"
    using closeTab_unknown closeTab_no_window by blast
  with assms show ?thesis by simp
next
  case True
  let ?r = "filter (\<lambda>k. k \<noteq> i) (map_keys (tabs s))"
  have keys: "map_keys (tabs (closeTab i s)) = ?r"
    using True by (simp add: closeTab_keys)
  have srt: "sorted_wrt (<) ?r"
    using assms by (simp add: registry_ok_def sorted_wrt_filter)
  have below: "list_all (\<lambda>k. k < nextTabId s) ?r"
    using assms by (auto simp: registry_ok_def list_all_iff)
  have "?r \<noteq> [] \<Longrightarrow> last ?r \<in> set ?r" by (rule last_in_set)
  then have act: "set_option (activeTabId (closeTab i s)) \<subseteq> set ?r"
    using assms True
    by (auto simp: closeTab_active registry_ok_def)
  show ?thesis
    unfolding registry_ok_def keys
    using srt below act assms by (simp add: closeTab_ids registry_ok_def)
qed

lemma registry_ok_did_navigate: "registry_ok s \<Longrightarrow> registry_ok (did_navigate i url s)"
  by (auto simp: did_navigate_def registry_ok_def replace_keys replace_ids split: option.splits)

lemma registry_ok_page_title_updated:
  "registry_ok s \<Longrightarrow> registry_ok (page_title_updated i title s)"
  by (auto simp: page_title_updated_def registry_ok_def replace_keys replace_ids
           split: option.splits)

lemma registry_ok_handle_navigate: "registry_ok s \<Longrightarrow> registry_ok (snd (handle_navigate url s))"
  by (auto simp: handle_navigate_def registry_ok_createTab registry_ok_wc_calls
           split: option.splits)

lemma registry_ok_execute_action:
  "registry_ok s \<Longrightarrow> registry_ok (snd (handle_execute_action pg a s))"
  by (simp add: handle_execute_action_def registry_ok_wc_calls split: option.splits)

lemma registry_ok_window: "registry_ok (s\<lparr>mainWindow := w\<rparr>) = registry_ok s"
  by (simp add: registry_ok_def)

lemma registry_ok_createWindow: "registry_ok s \<Longrightarrow> registry_ok (createWindow sz s)"
  by (simp add: createWindow_def registry_ok_createTab registry_ok_window)

lemma registry_ok_on_resize: "registry_ok s \<Longrightarrow> registry_ok (on_resize sz s)"
  by (auto simp: on_resize_def Let_def registry_ok_def replace_keys replace_ids
           split: option.splits)

lemma handle_create_tab_state: "snd (handle_create_tab url s) = snd (createTab url s)"
  by (simp add: handle_create_tab_def split: prod.splits)

lemma registry_ok_step: "registry_ok s \<Longrightarrow> registry_ok (step e s)"
  by (cases e)
     (simp_all add: handle_create_tab_state handle_switch_tab_def handle_close_tab_def
        registry_ok_createTab registry_ok_switchToTab registry_ok_closeTab
        registry_ok_handle_navigate registry_ok_execute_action registry_ok_did_navigate
        registry_ok_page_title_updated registry_ok_createWindow registry_ok_on_resize
        on_closed_def registry_ok_window)

lemma registry_ok_run: "registry_ok s \<Longrightarrow> registry_ok (run es s)"
  by (induction es arbitrary: s) (simp_all add: registry_ok_step)

lemma registry_ok_reachable: "registry_ok (run es init)"
  by (simp add: registry_ok_run registry_ok_init)

subsection \<open>What the renderer is told about the tabs\<close>

lemma get_tabs_ids: "ids_ok (tabs s) \<Longrightarrow> map info_id (handle_get_tabs s) = map_keys (tabs s)"
  by (simp add: handle_get_tabs_def map_values_def map_keys_def ids_ok_def list_all_iff)

lemma get_tabs_fields:
  "ids_ok m \<Longrightarrow>
   map (\<lambda>e. (info_id e, info_url e, info_title e))
     (map (\<lambda>t. \<lparr>info_id = tab_id t, info_url = tab_url t, info_title = tab_title t,
                info_active = (Some (tab_id t) = a)\<rparr>) (map_values m)) =
   map (\<lambda>p. (fst p, tab_url (snd p), tab_title (snd p))) m"
  by (induction m) (simp_all add: map_values_def ids_ok_def)

lemma get_tabs_active_ids:
  "ids_ok (tabs s) \<Longrightarrow>
   map info_id (filter info_active (handle_get_tabs s)) =
     filter (\<lambda>k. Some k = activeTabId s) (map_keys (tabs s))"
proof -
  assume ok: "ids_ok (tabs s)"
  have "map info_id (filter info_active (handle_get_tabs s)) =
          filter (\<lambda>k. Some k = activeTabId s) (map info_id (handle_get_tabs s))"
    by (simp add: handle_get_tabs_def filter_map comp_def)
  then show ?thesis using ok by (simp add: get_tabs_ids)
qed

lemma filter_eq_distinct:
  "distinct ks \<Longrightarrow> filter (\<lambda>k. k = a) ks = (if a \<in> set ks then [a] else [])"
  by (induction ks) auto

lemma strict_sorted_distinct: "sorted_wrt (<) (ks :: nat list) \<Longrightarrow> distinct ks"
  by (induction ks) auto

lemma active_keys:
  assumes "registry_ok s"
  shows "filter (\<lambda>k. Some k = activeTabId s) (map_keys (tabs s)) =
           (case activeTabId s of None \<Rightarrow> [] | Some a \<Rightarrow> [a])"
proof (cases "activeTabId s")
  case None
  then show ?thesis by simp
next
  case (Some a)
  from assms have d: "distinct (map_keys (tabs s))" and m: "a \<in> set (map_keys (tabs s))"
    using Some by (simp_all add: registry_ok_def strict_sorted_distinct)
  have "filter (\<lambda>k. Some k = activeTabId s) (map_keys (tabs s)) =
          filter (\<lambda>k. k = a) (map_keys (tabs s))"
    using Some by simp
  with d m Some show ?thesis by (simp add: filter_eq_distinct)
qed

lemma last_is_Max:
  "sorted_wrt (<) (r :: nat list) \<Longrightarrow> r \<noteq> [] \<Longrightarrow> last r = Max (set r)"
proof -
  assume s: "sorted_wrt (<) r" and ne: "r \<noteq> []"
  then have "sorted_wrt (<) (butlast r @ [last r])" by simp
  then have "\<forall>y \<in> set (butlast r). y < last r"
    by (simp add: sorted_wrt_append)
  moreover have "set r = insert (last r) (set (butlast r))"
    using ne by (metis append_butlast_last_id list.simps(15) rotate1.simps(2) set_rotate1)
  ultimately have "\<forall>y \<in> set r. y \<le> last r" by auto
  then show ?thesis using ne by (intro Max_eqI[symmetric]) auto
qed

subsection \<open>The next id never decreases\<close>

lemma next_step: "nextTabId s \<le> nextTabId (step e s)"
proof (cases e)
  case (Navigate url)
  then show ?thesis by (simp add: handle_navigate_def split: option.splits)
next
  case (ExecuteAction pg a)
  then show ?thesis by (simp add: handle_execute_action_def split: option.splits)
next
  case (DidNavigate i url)
  then show ?thesis by (simp add: did_navigate_def split: option.splits)
next
  case (PageTitleUpdated i title)
  then show ?thesis by (simp add: page_title_updated_def split: option.splits)
next
  case (Resize sz)
  then show ?thesis by (simp add: on_resize_def Let_def split: option.splits)
qed (simp_all add: handle_create_tab_state handle_switch_tab_def handle_close_tab_def
       createWindow_def on_closed_def)

lemma next_run: "nextTabId s \<le> nextTabId (run es s)"
proof (induction es arbitrary: s)
  case Nil
  show ?case by simp
next
  case (Cons e es)
  have "nextTabId s \<le> nextTabId (step e s)" by (rule next_step)
  also have "\<dots> \<le> nextTabId (run es (step e s))" by (rule Cons.IH)
  finally show ?case by simp
qed

section \<open>The tab registry over whole runs\<close>

text \<open>
  A run starts from \<open>init\<close>, the state of the module when it is loaded (no window, no tab),
  and is any sequence of requests of the renderer, notifications of pages and window
  events. The application itself starts every run with \<open>CreateWindow\<close>.
\<close>

text \<open>
  Claim C10 (list order). After every run, the \<open>get-tabs\<close> handler returns one snapshot per
  tab of the registry, in the order of the registry: the ids of the list are the keys of
  the map, and each snapshot carries the url and the title of its tab. The ids of the list
  are in strictly increasing order, which is the order of creation.
\<close>

theorem list_in_id_order:
  "map info_id (handle_get_tabs (run es init)) = map_keys (tabs (run es init)) \<and>
   length (handle_get_tabs (run es init)) = length (tabs (run es init)) \<and>
   map (\<lambda>e. (info_id e, info_url e, info_title e)) (handle_get_tabs (run es init)) =
     map (\<lambda>p. (fst p, tab_url (snd p), tab_title (snd p))) (tabs (run es init)) \<and>
   sorted_wrt (<) (map info_id (handle_get_tabs (run es init)))"
proof -
  let ?s = "run es init"
  have ok: "registry_ok ?s" by (rule registry_ok_reachable)
  then have ids: "ids_ok (tabs ?s)" and srt: "sorted_wrt (<) (map_keys (tabs ?s))"
    by (simp_all add: registry_ok_def)
  have keys: "map info_id (handle_get_tabs ?s) = map_keys (tabs ?s)"
    using ids by (rule get_tabs_ids)
  have len: "length (handle_get_tabs ?s) = length (tabs ?s)"
    by (simp add: handle_get_tabs_def map_values_def)
  have fields: "map (\<lambda>e. (info_id e, info_url e, info_title e)) (handle_get_tabs ?s) =
     map (\<lambda>p. (fst p, tab_url (snd p), tab_title (snd p))) (tabs ?s)"
    unfolding handle_get_tabs_def using ids by (rule get_tabs_fields)
  show ?thesis using keys len fields srt by simp
qed

text \<open>
  Claim C1 (single active tab). After every run, at most one entry of the list returned by
  the \<open>get-tabs\<close> handler is marked active, and the ids of the entries marked active are
  exactly the active-tab pointer (none when the pointer is null). A registry without tabs
  has no active tab; in particular, closing the only remaining tab (by a request served
  while the window exists) leaves no tab, a null pointer and no entry marked active.
\<close>

theorem single_active:
  "length (filter info_active (handle_get_tabs (run es init))) \<le> 1 \<and>
   map info_id (filter info_active (handle_get_tabs (run es init))) =
     (case activeTabId (run es init) of None \<Rightarrow> [] | Some a \<Rightarrow> [a]) \<and>
   (tabs (run es init) = [] \<longrightarrow> activeTabId (run es init) = None) \<and>
   (mainWindow (run es init) \<noteq> None \<and> map_keys (tabs (run es init)) = [i] \<longrightarrow>
      tabs (closeTab i (run es init)) = [] \<and>
      activeTabId (closeTab i (run es init)) = None \<and>
      filter info_active (handle_get_tabs (closeTab i (run es init))) = [])"
proof -
  let ?s = "run es init"
  have ok: "registry_ok ?s" by (rule registry_ok_reachable)
  then have ids: "ids_ok (tabs ?s)" by (simp add: registry_ok_def)
  have flagged: "map info_id (filter info_active (handle_get_tabs ?s)) =
      (case activeTabId ?s of None \<Rightarrow> [] | Some a \<Rightarrow> [a])"
    using ok ids by (simp add: get_tabs_active_ids active_keys)
  have "length (map info_id (filter info_active (handle_get_tabs ?s))) \<le> 1"
    unfolding flagged by (simp split: option.splits)
  then have atmost: "length (filter info_active (handle_get_tabs ?s)) \<le> 1" by simp
  have empty: "activeTabId ?s = None" if "tabs ?s = []"
    using ok that by (cases "activeTabId ?s") (simp_all add: registry_ok_def map_keys_def)
  have last: "tabs (closeTab i ?s) = [] \<and> activeTabId (closeTab i ?s) = None \<and>
      filter info_active (handle_get_tabs (closeTab i ?s)) = []"
    if w: "mainWindow ?s \<noteq> None" and k: "map_keys (tabs ?s) = [i]"
  proof -
    have "map_keys (tabs (closeTab i ?s)) = []"
      using w k by (simp add: closeTab_keys)
    then have t: "tabs (closeTab i ?s) = []" by (simp add: map_keys_def)
    have "registry_ok (closeTab i ?s)" using ok by (rule registry_ok_closeTab)
    with t have "activeTabId (closeTab i ?s) = None"
      by (cases "activeTabId (closeTab i ?s)") (simp_all add: registry_ok_def map_keys_def)
    with t show ?thesis by (simp add: handle_get_tabs_def map_values_def)
  qed
  show ?thesis using atmost flagged empty last by blast
qed

theorem single_active_witness:
  "mainWindow (run [CreateWindow (1280, 820)] init) \<noteq> None \<and>
   map_keys (tabs (run [CreateWindow (1280, 820)] init)) = [1] \<and>
   map info_id (filter info_active (handle_get_tabs (run [CreateWindow (1280, 820)] init))) = [1] \<and>
   tabs (closeTab 1 (run [CreateWindow (1280, 820)] init)) = [] \<and>
   activeTabId (closeTab 1 (run [CreateWindow (1280, 820)] init)) = None \<and>
   filter info_active (handle_get_tabs (closeTab 1 (run [CreateWindow (1280, 820)] init))) = [] \<and>
   tabs (run [] init) = [] \<and>
   activeTabId (run [] init) = None"
proof -
  let ?s = "run [CreateWindow (1280, 820)] init"
  have w: "mainWindow ?s \<noteq> None"
    by code_simp
  have k: "map_keys (tabs ?s) = [1]"
    by code_simp
  have a: "activeTabId ?s = Some 1"
    by code_simp
  note sa = single_active [of "[CreateWindow (1280, 820)]" 1]
  have flagged: "map info_id (filter info_active (handle_get_tabs ?s)) = [1]"
    using sa [THEN conjunct2, THEN conjunct1] unfolding a by simp
  have closed: "tabs (closeTab 1 ?s) = [] \<and> activeTabId (closeTab 1 ?s) = None \<and>
      filter info_active (handle_get_tabs (closeTab 1 ?s)) = []"
    using sa [THEN conjunct2, THEN conjunct2, THEN conjunct2] w k by blast
  have e: "tabs (run [] init) = []"
    by (simp add: init_def)
  have none: "activeTabId (run [] init) = None"
    using single_active [of "[]" 1, THEN conjunct2, THEN conjunct2, THEN conjunct1] e by blast
  show ?thesis using w k flagged closed e none by blast
qed

text \<open>
  Claim C5 (id monotonicity). Take any state, open a tab, let any sequence of events happen
  (other opens and closes among them), and open a tab again: the second tab gets a
  strictly greater id than the first. So the ids assigned by successive opens strictly
  increase, and none is assigned twice, whether or not its tab was closed in between.
\<close>

theorem ids_strictly_increasing:
  "tab_id (fst (createTab url1 s)) < tab_id (fst (createTab url2 (run es (snd (createTab url1 s)))))"
proof -
  have "nextTabId s < nextTabId (snd (createTab url1 s))" by simp
  also have "\<dots> \<le> nextTabId (run es (snd (createTab url1 s)))" by (rule next_run)
  finally show ?thesis by simp
qed

text \<open>
  Claim C2 (activation fallback). After every run, when the window exists and tab \<open>i\<close> is in
  the registry, \<open>closeTab i\<close> removes exactly the key \<open>i\<close>; if \<open>i\<close> was the active tab, the
  active tab becomes the remaining tab with the greatest id, or none if no tab remains;
  otherwise the active tab stays. Closing the only tab leaves no active tab.
\<close>

theorem activation_fallback:
  assumes "mainWindow (run es init) \<noteq> None" and "i \<in> set (map_keys (tabs (run es init)))"
  shows "map_keys (tabs (closeTab i (run es init))) =
           filter (\<lambda>k. k \<noteq> i) (map_keys (tabs (run es init))) \<and>
         activeTabId (closeTab i (run es init)) =
           (if activeTabId (run es init) = Some i
            then (if map_keys (tabs (closeTab i (run es init))) = [] then None
                  else Some (Max (set (map_keys (tabs (closeTab i (run es init)))))))
            else activeTabId (run es init)) \<and>
         (map_keys (tabs (closeTab i (run es init))) = [] \<longrightarrow>
            activeTabId (closeTab i (run es init)) = None)"
proof -
  let ?s = "run es init"
  let ?r = "filter (\<lambda>k. k \<noteq> i) (map_keys (tabs ?s))"
  have ok: "registry_ok ?s" by (rule registry_ok_reachable)
  have keys: "map_keys (tabs (closeTab i ?s)) = ?r"
    using assms(1) by (rule closeTab_keys)
  have "sorted_wrt (<) ?r"
    using ok by (simp add: registry_ok_def sorted_wrt_filter)
  then have mx: "?r \<noteq> [] \<Longrightarrow> last ?r = Max (set ?r)"
    by (rule last_is_Max)
  have act: "activeTabId (closeTab i ?s) =
      (if activeTabId ?s = Some i
       then (if ?r = [] then None else Some (Max (set ?r)))
       else activeTabId ?s)"
    using mx by (simp add: closeTab_active[OF assms])
  have "registry_ok (closeTab i ?s)" using ok by (rule registry_ok_closeTab)
  then have none: "activeTabId (closeTab i ?s) = None" if "?r = []"
    using that keys by (cases "activeTabId (closeTab i ?s)") (simp_all add: registry_ok_def)
  show ?thesis unfolding keys using act none by simp
qed

theorem activation_fallback_witness:
  "mainWindow (run [CreateWindow (1280, 820), CreateTab [], CreateTab []] init) \<noteq> None \<and>
   3 \<in> set (map_keys (tabs (run [CreateWindow (1280, 820), CreateTab [], CreateTab []] init))) \<and>
   activeTabId (run [CreateWindow (1280, 820), CreateTab [], CreateTab []] init) = Some 3 \<and>
   map_keys (tabs (closeTab 3 (run [CreateWindow (1280, 820), CreateTab [], CreateTab []] init)))
     = [1, 2] \<and>
   activeTabId (closeTab 3 (run [CreateWindow (1280, 820), CreateTab [], CreateTab []] init))
     = Some 2 \<and>
   mainWindow (run [CreateWindow (1280, 820)] init) \<noteq> None \<and>
   1 \<in> set (map_keys (tabs (run [CreateWindow (1280, 820)] init))) \<and>
   map_keys (tabs (closeTab 1 (run [CreateWindow (1280, 820)] init))) = [] \<and>
   activeTabId (closeTab 1 (run [CreateWindow (1280, 820)] init)) = None"
proof -
  let ?s3 = "run [CreateWindow (1280, 820), CreateTab [], CreateTab []] init"
  let ?s1 = "run [CreateWindow (1280, 820)] init"
  have w: "mainWindow ?s3 \<noteq> None"
    by code_simp
  have k: "map_keys (tabs ?s3) = [1, 2, 3]"
    by code_simp
  have a: "activeTabId ?s3 = Some 3"
    by code_simp
  have m: "3 \<in> set (map_keys (tabs ?s3))"
    unfolding k by simp
  have w1: "mainWindow ?s1 \<noteq> None"
    by code_simp
  have k1: "map_keys (tabs ?s1) = [1]"
    by code_simp
  have m1: "1 \<in> set (map_keys (tabs ?s1))"
    unfolding k1 by simp
  note fb3 = activation_fallback [OF w m]
  have r3: "map_keys (tabs (closeTab 3 ?s3)) = [1, 2]"
    using fb3 [THEN conjunct1] unfolding k by simp
  have a3: "activeTabId (closeTab 3 ?s3) = Some 2"
    using fb3 [THEN conjunct2, THEN conjunct1] unfolding r3 a by simp
  note fb1 = activation_fallback [OF w1 m1]
  have r1: "map_keys (tabs (closeTab 1 ?s1)) = []"
    using fb1 [THEN conjunct1] unfolding k1 by simp
  have a1: "activeTabId (closeTab 1 ?s1) = None"
    using fb1 [THEN conjunct2, THEN conjunct2] r1 by blast
  show ?thesis
    using w m a r3 a3 w1 m1 r1 a1 by blast
qed

section \<open>Unknown ids\<close>

lemma switchToTab_unknown: "i \<notin> set (map_keys (tabs s)) \<Longrightarrow> switchToTab i s = s"
  using map_get_None[of "tabs s" i] by (simp add: switchToTab_def split: option.splits)

text \<open>
  Claim C4 (unknown id), as the code has it. For every id that is not in the registry, the
  handlers of \<open>switch-tab\<close> and \<open>close-tab\<close> leave the whole state unchanged (the set of
  tabs, the active-tab pointer, every field of every tab, and nothing is sent to the
  renderer), and both return \<open>{success: true}\<close>: the caller is not told of a failure.
\<close>

theorem unknown_id_noop:
  "i \<notin> set (map_keys (tabs s)) \<Longrightarrow>
   handle_switch_tab i s = (\<lparr>res_success = True, res_text = None, res_error = None\<rparr>, s) \<and>
   handle_close_tab i s = (\<lparr>res_success = True, res_text = None, res_error = None\<rparr>, s)"
  by (simp add: handle_switch_tab_def handle_close_tab_def ok_def switchToTab_unknown
        closeTab_unknown)

theorem unknown_id_noop_witness:
  "7 \<notin> set (map_keys (tabs (run [CreateWindow (1280, 820)] init))) \<and>
   handle_switch_tab 7 (run [CreateWindow (1280, 820)] init) =
     (\<lparr>res_success = True, res_text = None, res_error = None\<rparr>,
      run [CreateWindow (1280, 820)] init) \<and>
   handle_close_tab 7 (run [CreateWindow (1280, 820)] init) =
     (\<lparr>res_success = True, res_text = None, res_error = None\<rparr>,
      run [CreateWindow (1280, 820)] init)"
proof -
  have k: "map_keys (tabs (run [CreateWindow (1280, 820)] init)) = [1]"
    by code_simp
  have n: "7 \<notin> set (map_keys (tabs (run [CreateWindow (1280, 820)] init)))"
    unfolding k by simp
  show ?thesis using unknown_id_noop [OF n] n by blast
qed

text \<open>
  The claim as the spec states it, that the returned result indicates failure, fails: with
  the single tab 1 open, both handlers answer a request for tab 7 with success.
\<close>

theorem unknown_id_reports_success_counterexample:
  "7 \<notin> set (map_keys (tabs (run [CreateWindow (1280, 820)] init))) \<and>
   res_success (fst (handle_switch_tab 7 (run [CreateWindow (1280, 820)] init))) \<and>
   res_success (fst (handle_close_tab 7 (run [CreateWindow (1280, 820)] init)))"
proof -
  have k: "map_keys (tabs (run [CreateWindow (1280, 820)] init)) = [1]"
    by code_simp
  have n: "7 \<notin> set (map_keys (tabs (run [CreateWindow (1280, 820)] init)))"
    unfolding k by simp
  then show ?thesis by (simp add: handle_switch_tab_def handle_close_tab_def ok_def)
qed

section \<open>The action executor\<close>

lemma map_get_map_set: "map_get (map_set k v m) k = Some v"
  by (induction m) (auto simp: map_get_def)

lemma map_delete_map_set: "map_delete k (map_set k v m) = map_delete k m"
  by (induction m) (auto simp: map_delete_def)

lemma calls_of_wc_calls:
  "map_get (tabs s) i = Some t \<Longrightarrow> calls_of (wc_calls i cs s) i = calls_of s i @ cs"
  by (simp add: calls_of_def wc_calls_def map_get_map_set)

lemma others_wc_calls: "map_delete i (tabs (wc_calls i cs s)) = map_delete i (tabs s)"
  by (simp add: wc_calls_def map_delete_map_set split: option.splits)

lemma type_loop_events: "type_loop str sentq = sentq @ concat (map key_triple str)"
  by (induction str arbitrary: sentq) (simp_all add: key_triple_def)

lemma active_tab_exists:
  assumes "registry_ok s" and "activeTabId s = Some i"
  shows "\<exists>t. map_get (tabs s) i = Some t"
proof -
  from assms have "i \<in> set (map_keys (tabs s))" by (simp add: registry_ok_def)
  then have "map_get (tabs s) i \<noteq> None" by (simp add: map_get_None)
  then show ?thesis by blast
qed

text \<open>
  Claim C3 (action precondition), as the code has it. For every action, of any type, when
  there is no active tab the handler of \<open>execute-action\<close> returns a failure whose error is
  the fixed string \<open>No active tab\<close>, and the state is unchanged: no input event and no
  script reaches any tab.
\<close>

theorem no_active_tab_fails:
  "activeTabId s = None \<Longrightarrow>
   handle_execute_action pg a s =
     (\<lparr>res_success = False, res_text = None, res_error = Some ''No active tab''\<rparr>, s)"
  by (simp add: handle_execute_action_def failure_def)

theorem no_active_tab_fails_witness:
  "activeTabId (run [CreateWindow (1280, 820), CloseTab 1] init) = None \<and>
   handle_execute_action \<lparr>innerText = ''page'', canGoBack = False, canGoForward = False\<rparr>
     \<lparr>act_type = ''click'', act_x = Some 10, act_y = Some 10, act_text = None,
       act_direction = None, act_amount = None\<rparr>
     (run [CreateWindow (1280, 820), CloseTab 1] init) =
     (\<lparr>res_success = False, res_text = None, res_error = Some ''No active tab''\<rparr>,
      run [CreateWindow (1280, 820), CloseTab 1] init)"
proof -
  have n: "activeTabId (run [CreateWindow (1280, 820), CloseTab 1] init) = None"
    by code_simp
  show ?thesis using no_active_tab_fails [OF n] n by blast
qed

text \<open>
  The claim as the spec states it, that the error is exactly \<open>no active surface\<close>, fails on
  the spec's own scenario: no tab open (the window's first tab was closed), a click at
  (10, 10).
\<close>

theorem no_active_surface_counterexample:
  "tabs (run [CreateWindow (1280, 820), CloseTab 1] init) = [] \<and>
   activeTabId (run [CreateWindow (1280, 820), CloseTab 1] init) = None \<and>
   res_error (fst (handle_execute_action
       \<lparr>innerText = ''page'', canGoBack = False, canGoForward = False\<rparr>
       \<lparr>act_type = ''click'', act_x = Some 10, act_y = Some 10, act_text = None,
         act_direction = None, act_amount = None\<rparr>
       (run [CreateWindow (1280, 820), CloseTab 1] init)))
     = Some ''No active tab'' \<and>
   ''No active tab'' \<noteq> ''no active surface''"
  by code_simp

text \<open>
  Claim C7 (bound of extract-text). After every run that leaves a tab active, the action
  \<open>extract-text\<close> succeeds and returns in its \<open>text\<close> field the first 5000 characters of the
  document text, all of it when it is shorter: \<open>min L 5000\<close> characters for a text of
  length \<open>L\<close>.
\<close>

theorem extract_text_bound:
  assumes "activeTabId (run es init) = Some i" and "act_type a = ''extract-text''"
  shows "fst (handle_execute_action pg a (run es init)) =
           \<lparr>res_success = True, res_text = Some (take 5000 (innerText pg)), res_error = None\<rparr> \<and>
         length (take 5000 (innerText pg)) = min (length (innerText pg)) 5000"
proof -
  obtain t where t: "map_get (tabs (run es init)) i = Some t"
    using active_tab_exists [OF registry_ok_reachable assms(1)] by blast
  show ?thesis
    using assms t
    by (simp add: handle_execute_action_def run_script_def substring_def min.commute)
qed

theorem extract_text_bound_witness:
  "activeTabId (run [CreateWindow (1280, 820)] init) = Some 1 \<and>
   fst (handle_execute_action
          \<lparr>innerText = replicate 9000 CHR ''a'', canGoBack = False, canGoForward = False\<rparr>
          \<lparr>act_type = ''extract-text'', act_x = None, act_y = None, act_text = None,
            act_direction = None, act_amount = None\<rparr>
          (run [CreateWindow (1280, 820)] init)) =
     \<lparr>res_success = True, res_text = Some (replicate 5000 CHR ''a''), res_error = None\<rparr> \<and>
   length (replicate 5000 CHR ''a'') = (5000 :: nat)"
proof -
  have a: "activeTabId (run [CreateWindow (1280, 820)] init) = Some 1"
    by code_simp
  have "fst (handle_execute_action
          \<lparr>innerText = replicate 9000 CHR ''a'', canGoBack = False, canGoForward = False\<rparr>
          \<lparr>act_type = ''extract-text'', act_x = None, act_y = None, act_text = None,
            act_direction = None, act_amount = None\<rparr>
          (run [CreateWindow (1280, 820)] init)) =
     \<lparr>res_success = True,
       res_text = Some (take 5000 (innerText
          \<lparr>innerText = replicate 9000 CHR ''a'', canGoBack = False, canGoForward = False\<rparr>)),
       res_error = None\<rparr>"
    by (rule extract_text_bound [OF a, THEN conjunct1]) simp
  then show ?thesis using a by simp
qed

text \<open>
  Claim C9 (typing). After every run that leaves tab \<open>i\<close> active, the action \<open>type\<close> with the
  text \<open>str\<close> succeeds and sends to tab \<open>i\<close>, for each character of \<open>str\<close> in order, a keyDown,
  a char and a keyUp event, in that order, and nothing else; the other tabs are untouched.
  With the empty text nothing is sent and the state is unchanged.
\<close>

theorem type_semantics:
  assumes "activeTabId (run es init) = Some i"
    and "act_type a = ''type''" and "act_text a = Some str"
  shows "fst (handle_execute_action pg a (run es init)) =
           \<lparr>res_success = True, res_text = None, res_error = None\<rparr> \<and>
         calls_of (snd (handle_execute_action pg a (run es init))) i =
           calls_of (run es init) i @ concat (map key_triple str) \<and>
         map_delete i (tabs (snd (handle_execute_action pg a (run es init)))) =
           map_delete i (tabs (run es init)) \<and>
         (str = [] \<longrightarrow> snd (handle_execute_action pg a (run es init)) = run es init)"
proof -
  let ?s = "run es init"
  obtain t where t: "map_get (tabs ?s) i = Some t"
    using active_tab_exists [OF registry_ok_reachable assms(1)] by blast
  have res: "handle_execute_action pg a ?s =
      (ok, if str \<noteq> [] then wc_calls i (type_loop str []) ?s else ?s)"
    using assms t by (simp add: handle_execute_action_def)
  show ?thesis
    unfolding res using t
    by (simp add: ok_def calls_of_wc_calls others_wc_calls type_loop_events)
qed

theorem type_semantics_witness:
  "activeTabId (run [CreateWindow (1280, 820)] init) = Some 1 \<and>
   calls_of (snd (handle_execute_action
       \<lparr>innerText = ''page'', canGoBack = False, canGoForward = False\<rparr>
       \<lparr>act_type = ''type'', act_x = None, act_y = None, act_text = Some ''hi'',
         act_direction = None, act_amount = None\<rparr>
       (run [CreateWindow (1280, 820)] init))) 1 =
     [SendInputEvent (KeyDown ''h''), SendInputEvent (CharEvent ''h''), SendInputEvent (KeyUp ''h''),
      SendInputEvent (KeyDown ''i''), SendInputEvent (CharEvent ''i''), SendInputEvent (KeyUp ''i'')] \<and>
   snd (handle_execute_action
       \<lparr>innerText = ''page'', canGoBack = False, canGoForward = False\<rparr>
       \<lparr>act_type = ''type'', act_x = None, act_y = None, act_text = Some [],
         act_direction = None, act_amount = None\<rparr>
       (run [CreateWindow (1280, 820)] init)) = run [CreateWindow (1280, 820)] init"
proof -
  let ?s = "run [CreateWindow (1280, 820)] init"
  let ?pg = "\<lparr>innerText = ''page'', canGoBack = False, canGoForward = False\<rparr>"
  let ?hi = "\<lparr>act_type = ''type'', act_x = None, act_y = None, act_text = Some ''hi'',
         act_direction = None, act_amount = None\<rparr>"
  let ?nil = "\<lparr>act_type = ''type'', act_x = None, act_y = None, act_text = Some [],
         act_direction = None, act_amount = None\<rparr>"
  have a: "activeTabId ?s = Some 1"
    by code_simp
  have c: "calls_of ?s 1 = []"
    by code_simp
  have "calls_of (snd (handle_execute_action ?pg ?hi ?s)) 1 =
          calls_of ?s 1 @ concat (map key_triple ''hi'')"
    by (rule type_semantics [OF a, THEN conjunct2, THEN conjunct1]) simp_all
  then have hi: "calls_of (snd (handle_execute_action ?pg ?hi ?s)) 1 =
     [SendInputEvent (KeyDown ''h''), SendInputEvent (CharEvent ''h''), SendInputEvent (KeyUp ''h''),
      SendInputEvent (KeyDown ''i''), SendInputEvent (CharEvent ''i''), SendInputEvent (KeyUp ''i'')]"
    unfolding c by (simp add: key_triple_def)
  have "[] = ([] :: string) \<longrightarrow> snd (handle_execute_action ?pg ?nil ?s) = ?s"
    by (rule type_semantics [OF a, THEN conjunct2, THEN conjunct2, THEN conjunct2]) simp_all
  then have nil: "snd (handle_execute_action ?pg ?nil ?s) = ?s" by simp
  show ?thesis using a hi nil by blast
qed

text \<open>
  Claim C8 (scrolling), as the code has it. After every run that leaves tab \<open>i\<close> active, the
  action \<open>scroll\<close> succeeds and evaluates exactly one script in tab \<open>i\<close>,
  \<open>window.scrollBy(0, d)\<close>, where \<open>d\<close> is \<open>- m\<close> when the direction is \<open>up\<close> and \<open>m\<close> for any
  other direction, and \<open>m\<close> is the amount when one is given and is not 0, and 500 when the
  amount is absent or 0. So for a positive amount, and for the default, the magnitude is
  \<open>m\<close> and the sign is negative exactly for \<open>up\<close>.
\<close>

theorem scroll_semantics:
  assumes "activeTabId (run es init) = Some i" and "act_type a = ''scroll''"
    and "m = (case act_amount a of None \<Rightarrow> 500 | Some n \<Rightarrow> if n = 0 then 500 else n)"
    and "d = (if act_direction a = Some ''up'' then - m else m)"
  shows "fst (handle_execute_action pg a (run es init)) =
           \<lparr>res_success = True, res_text = None, res_error = None\<rparr> \<and>
         calls_of (snd (handle_execute_action pg a (run es init))) i =
           calls_of (run es init) i @ [ExecuteJavaScript (ScrollBy 0 d)] \<and>
         map_delete i (tabs (snd (handle_execute_action pg a (run es init)))) =
           map_delete i (tabs (run es init)) \<and>
         (0 < m \<longrightarrow> \<bar>d\<bar> = m \<and> (d < 0 \<longleftrightarrow> act_direction a = Some ''up''))"
proof -
  let ?s = "run es init"
  obtain t where t: "map_get (tabs ?s) i = Some t"
    using active_tab_exists [OF registry_ok_reachable assms(1)] by blast
  have res: "handle_execute_action pg a ?s =
      (ok, wc_calls i [ExecuteJavaScript (ScrollBy 0 d)] ?s)"
    using assms t by (simp add: handle_execute_action_def amount_or_500_def)
  have sign: "0 < m \<longrightarrow> \<bar>d\<bar> = m \<and> (d < 0 \<longleftrightarrow> act_direction a = Some ''up'')"
    using assms(4) by auto
  show ?thesis
    unfolding res using t sign
    by (simp add: ok_def calls_of_wc_calls others_wc_calls)
qed

theorem scroll_semantics_witness:
  "activeTabId (run [CreateWindow (1280, 820)] init) = Some 1 \<and>
   calls_of (snd (handle_execute_action
       \<lparr>innerText = ''page'', canGoBack = False, canGoForward = False\<rparr>
       \<lparr>act_type = ''scroll'', act_x = None, act_y = None, act_text = None,
         act_direction = Some ''up'', act_amount = Some 120\<rparr>
       (run [CreateWindow (1280, 820)] init))) 1 = [ExecuteJavaScript (ScrollBy 0 (- 120))] \<and>
   calls_of (snd (handle_execute_action
       \<lparr>innerText = ''page'', canGoBack = False, canGoForward = False\<rparr>
       \<lparr>act_type = ''scroll'', act_x = None, act_y = None, act_text = None,
         act_direction = Some ''down'', act_amount = None\<rparr>
       (run [CreateWindow (1280, 820)] init))) 1 = [ExecuteJavaScript (ScrollBy 0 500)]"
proof -
  let ?s = "run [CreateWindow (1280, 820)] init"
  let ?pg = "\<lparr>innerText = ''page'', canGoBack = False, canGoForward = False\<rparr>"
  let ?up = "\<lparr>act_type = ''scroll'', act_x = None, act_y = None, act_text = None,
         act_direction = Some ''up'', act_amount = Some 120\<rparr>"
  let ?down = "\<lparr>act_type = ''scroll'', act_x = None, act_y = None, act_text = None,
         act_direction = Some ''down'', act_amount = None\<rparr>"
  have a: "activeTabId ?s = Some 1"
    by code_simp
  have c: "calls_of ?s 1 = []"
    by code_simp
  have "calls_of (snd (handle_execute_action ?pg ?up ?s)) 1 =
          calls_of ?s 1 @ [ExecuteJavaScript (ScrollBy 0 (- 120))]"
    by (rule scroll_semantics [OF a, where m = 120, THEN conjunct2, THEN conjunct1]) simp_all
  then have up: "calls_of (snd (handle_execute_action ?pg ?up ?s)) 1 =
      [ExecuteJavaScript (ScrollBy 0 (- 120))]"
    unfolding c by simp
  have "calls_of (snd (handle_execute_action ?pg ?down ?s)) 1 =
          calls_of ?s 1 @ [ExecuteJavaScript (ScrollBy 0 500)]"
    by (rule scroll_semantics [OF a, where m = 500, THEN conjunct2, THEN conjunct1]) simp_all
  then have down: "calls_of (snd (handle_execute_action ?pg ?down ?s)) 1 =
      [ExecuteJavaScript (ScrollBy 0 500)]"
    unfolding c by simp
  show ?thesis using a up down by blast
qed

text \<open>
  The claim as the spec states it fails at the amount 0, which scrolls by 500 pixels and
  not by 0, and at a negative amount, where the direction \<open>up\<close> scrolls by a positive
  number of pixels.
\<close>

theorem scroll_amount_counterexample:
  "activeTabId (run [CreateWindow (1280, 820)] init) = Some 1 \<and>
   calls_of (snd (handle_execute_action
       \<lparr>innerText = ''page'', canGoBack = False, canGoForward = False\<rparr>
       \<lparr>act_type = ''scroll'', act_x = None, act_y = None, act_text = None,
         act_direction = Some ''down'', act_amount = Some 0\<rparr>
       (run [CreateWindow (1280, 820)] init))) 1 = [ExecuteJavaScript (ScrollBy 0 500)] \<and>
   calls_of (snd (handle_execute_action
       \<lparr>innerText = ''page'', canGoBack = False, canGoForward = False\<rparr>
       \<lparr>act_type = ''scroll'', act_x = None, act_y = None, act_text = None,
         act_direction = Some ''up'', act_amount = Some (- 100)\<rparr>
       (run [CreateWindow (1280, 820)] init))) 1 = [ExecuteJavaScript (ScrollBy 0 100)]"
  by code_simp

section \<open>Framing of outbound binary messages\<close>

text \<open>The loop of \<open>sendScreenshot\<close> leaves the first \<open>i + 1\<close> bytes of the view as they are
  and writes the remaining character codes behind them.\<close>

lemma screenshot_loop_writes:
  "i \<le> length bytes \<Longrightarrow> length view = length bytes + 1 \<Longrightarrow>
   screenshot_loop bytes i view = take (i + 1) view @ map of_nat (drop i bytes)"
proof (induction bytes i view rule: screenshot_loop.induct)
  case (1 bytes i view)
  show ?case
  proof (cases "i < length bytes")
    case False
    with 1 show ?thesis by (simp add: screenshot_loop.simps)
  next
    case True
    let ?v = "view[i + 1 := of_nat (bytes ! i)]"
    have step: "screenshot_loop bytes i view = screenshot_loop bytes (i + 1) ?v"
      using True by (subst screenshot_loop.simps) simp
    have ih: "screenshot_loop bytes (i + 1) ?v =
                take (i + 1 + 1) ?v @ map of_nat (drop (i + 1) bytes)"
      using 1 True by simp
    have t: "take (i + 1 + 1) ?v = take (i + 1) view @ [of_nat (bytes ! i)]"
      using True 1(3) by (simp add: take_Suc_conv_app_nth)
    have d: "drop i bytes = bytes ! i # drop (i + 1) bytes"
      using True by (simp add: Cons_nth_drop_Suc)
    show ?thesis unfolding step ih t d by simp
  qed
qed

text \<open>
  Claim C6 (framing round-trip). For every byte payload \<open>P\<close>, on an open socket \<open>sendAudio\<close>
  sends the byte \<open>0x01\<close> followed by exactly \<open>P\<close>, and \<open>sendScreenshot\<close>, given the base64
  text of \<open>P\<close> (so that \<open>atob\<close> yields the character codes of \<open>P\<close>), sends \<open>0x02\<close> followed
  by exactly \<open>P\<close>; decoding either message gives back the discriminator and the payload \<open>P\<close>.
\<close>

theorem framing_round_trip:
  "sendAudio True P = WsSend (0x01 # P) \<and>
   decode_frame (0x01 # P) = Some (0x01, P) \<and>
   (atob base64 = Some (map unat P) \<longrightarrow> sendScreenshot atob True base64 = WsSend (0x02 # P)) \<and>
   decode_frame (0x02 # P) = Some (0x02, P)"
proof -
  have audio: "sendAudio True P = WsSend (0x01 # P)"
    by (simp add: sendAudio_def uint8_set_def)
  have image: "sendScreenshot atob True base64 = WsSend (0x02 # P)"
    if "atob base64 = Some (map unat P)"
  proof -
    let ?bytes = "map unat P"
    let ?view = "(replicate (length ?bytes + 1) (0 :: 8 word))[0 := 0x02]"
    have "screenshot_loop ?bytes 0 ?view = take (0 + 1) ?view @ map of_nat (drop 0 ?bytes)"
      by (rule screenshot_loop_writes) simp_all
    also have "\<dots> = 0x02 # P"
      by (simp add: comp_def)
    finally show ?thesis using that by (simp add: sendScreenshot_def)
  qed
  show ?thesis using audio image by (simp add: decode_frame_def)
qed

theorem framing_round_trip_witness:
  "sendAudio True [0x10, 0xFF] = WsSend [0x01, 0x10, 0xFF] \<and>
   decode_frame [0x01, 0x10, 0xFF] = Some (0x01, [0x10, 0xFF]) \<and>
   (\<lambda>b. if b = ''EP8='' then Some [16, 255] else None) ''EP8='' = Some (map unat [0x10, 0xFF :: 8 word]) \<and>
   sendScreenshot (\<lambda>b. if b = ''EP8='' then Some [16, 255] else None) True ''EP8=''
     = WsSend [0x02, 0x10, 0xFF] \<and>
   decode_frame [0x02, 0x10, 0xFF] = Some (0x02, [0x10, 0xFF])"
  using framing_round_trip [of "[0x10, 0xFF]" "\<lambda>b. if b = ''EP8='' then Some [16, 255] else None" "''EP8=''"]
  by simp

end
